theory Spec2Isabelle
  imports Complex_Main
begin

section \<open>Go values used by main.go\<close>

text \<open>
  A Go \<^verbatim>\<open>string\<close> is a sequence of bytes and \<^verbatim>\<open>len\<close> counts bytes, so it is a
  \<^typ>\<open>string\<close> here. A Go \<^verbatim>\<open>int\<close> is a signed 64-bit integer on the platforms the
  tool is built for; it is an \<^typ>\<open>int\<close> kept in range by \<open>wrap64\<close>, which is what
  \<^verbatim>\<open>+\<close> does on overflow.
\<close>

definition max_int64 :: int where
  "max_int64 = 9223372036854775807"

definition is_int64 :: "int \<Rightarrow> bool" where
  "is_int64 x = (- max_int64 - 1 \<le> x \<and> x \<le> max_int64)"

definition wrap64 :: "int \<Rightarrow> int" where
  "wrap64 x = (x + 9223372036854775808) mod 18446744073709551616 - 9223372036854775808"

text \<open>Run-time panics of the Go runtime that the functions below can raise.\<close>

datatype panic = SliceBoundsOutOfRange | IndexOutOfRange

text \<open>
  The slice expression \<^verbatim>\<open>s[lo:hi]\<close> on a string: it panics unless
  \<^verbatim>\<open>0 <= lo <= hi <= len(s)\<close>.
\<close>

definition slice :: "string \<Rightarrow> int \<Rightarrow> int \<Rightarrow> panic + string" where
  "slice s lo hi =
     (if 0 \<le> lo \<and> lo \<le> hi \<and> hi \<le> int (length s)
      then Inr (take (nat (hi - lo)) (drop (nat lo) s))
      else Inl SliceBoundsOutOfRange)"

section \<open>splitDOMContent\<close>

text \<open>
  The \<^verbatim>\<open>for i := 0; i < len(domContent); i += maxLength\<close> loop, with \<open>i\<close> and the
  \<open>chunks\<close> built so far as its state. The result is \<open>None\<close> when the loop never
  ends, \<open>Some (Inl p)\<close> when it panics and \<open>Some (Inr chunks)\<close> when it returns.
\<close>

partial_function (option) splitDOMContent_loop ::
  "string \<Rightarrow> int \<Rightarrow> int \<Rightarrow> string list \<Rightarrow> (panic + string list) option" where
  "splitDOMContent_loop domContent maxLength i chunks =
     (if i < int (length domContent) then
        (let end0 = wrap64 (i + maxLength);
             end1 = (if end0 > int (length domContent) then int (length domContent) else end0)
         in case slice domContent i end1 of
              Inl p \<Rightarrow> Some (Inl p)
            | Inr chunk \<Rightarrow>
                splitDOMContent_loop domContent maxLength (wrap64 (i + maxLength))
                  (chunks @ [chunk]))
      else Some (Inr chunks))"

definition splitDOMContent :: "string \<Rightarrow> int \<Rightarrow> (panic + string list) option" where
  "splitDOMContent domContent maxLength = splitDOMContent_loop domContent maxLength 0 []"

section \<open>strings.Builder and strings.Join\<close>

text \<open>
  A \<^verbatim>\<open>strings.Builder\<close> is the sequence of strings written to it so far;
  \<^verbatim>\<open>String()\<close> is their concatenation.
\<close>

type_synonym builder = "string list"

definition WriteString :: "builder \<Rightarrow> string \<Rightarrow> builder" where
  "WriteString b s = b @ [s]"

definition String :: "builder \<Rightarrow> string" where
  "String b = concat b"

fun strings_Join :: "string list \<Rightarrow> string \<Rightarrow> string" where
  "strings_Join [] sep = []"
| "strings_Join [x] sep = x"
| "strings_Join (x # y # ys) sep = x @ sep @ strings_Join (y # ys) sep"

section \<open>printFormatted\<close>

text \<open>
  The \<^verbatim>\<open>for len(text) > 0\<close> loop, with the remaining \<open>text\<close> and the builder
  \<open>result\<close> as its state. \<open>None\<close> is a loop that never ends.
\<close>

partial_function (option) printFormatted_loop ::
  "string \<Rightarrow> int \<Rightarrow> builder \<Rightarrow> (panic + builder) option" where
  "printFormatted_loop text lineWidth result =
     (if int (length text) > 0 then
        (if int (length text) > lineWidth then
           (case slice text 0 lineWidth of
              Inl p \<Rightarrow> Some (Inl p)
            | Inr line \<Rightarrow>
                (case slice text lineWidth (int (length text)) of
                   Inl p \<Rightarrow> Some (Inl p)
                 | Inr rest \<Rightarrow>
                     printFormatted_loop rest lineWidth (WriteString result (line @ [CHR 0x0A]))))
         else printFormatted_loop [] lineWidth (WriteString result (text @ [CHR 0x0A])))
      else Some (Inr result))"

definition printFormatted :: "string \<Rightarrow> int \<Rightarrow> (panic + string) option" where
  "printFormatted text lineWidth =
     map_option (map_sum id String) (printFormatted_loop text lineWidth [])"

section \<open>The model response\<close>

text \<open>
  The types of the genai library that \<^verbatim>\<open>parseWithGenAI\<close> reads. A \<^verbatim>\<open>genai.Part\<close>
  is an interface value: \<open>Text t\<close> is a \<^verbatim>\<open>genai.Text\<close>, which \<^verbatim>\<open>fmt.Sprint\<close> prints
  as \<open>t\<close> itself; \<open>Stringer s\<close> is any part whose type implements \<^verbatim>\<open>fmt.Stringer\<close>
  and whose \<^verbatim>\<open>String()\<close> is \<open>s\<close>; \<open>Other s\<close> is any other part (a blob, a function
  call, ...), \<open>s\<close> being what \<^verbatim>\<open>fmt.Sprint\<close> prints for it. A candidate's
  \<^verbatim>\<open>Content\<close> is a pointer, \<open>None\<close> when nil.
\<close>

datatype part = Text string | Stringer string | Other string

record content =
  Parts :: "part list"

record candidate =
  Content :: "content option"

record response =
  Candidates :: "candidate list"

section \<open>The outside world of parseWithGenAI\<close>

text \<open>
  What the function reads from outside: the environment variable, whether genai.NewClient
  fails for a key (\<open>Some err\<close>) and what the model call returns. \<open>GenerateContent n d c\<close> is the
  result of the call with instruction \<open>d\<close> and chunk \<open>c\<close> when \<open>n\<close> calls were made on
  the client before it: \<open>Inl err\<close> a failure, \<open>Inr resp\<close> a response.
\<close>

record world =
  Getenv :: "string \<Rightarrow> string"
  NewClient :: "string \<Rightarrow> string option"
  GenerateContent :: "nat \<Rightarrow> string \<Rightarrow> string \<Rightarrow> string + response"

text \<open>What the function does to the outside, in order.\<close>

datatype event =
    ClientCreated string
  | Printed int int
  | Generated string string
  | ClientClosed

text \<open>
  The three errors \<^verbatim>\<open>parseWithGenAI\<close> builds with \<^verbatim>\<open>fmt.Errorf\<close>:
  "GEMINI_API_KEY not set", "failed to create GenAI client: %w" and
  "failed to generate content for chunk %d: %w".
\<close>

datatype error =
    KeyNotSet
  | ClientFailed string
  | ChunkFailed int string

section \<open>parseWithGenAI\<close>

definition min_go :: "int \<Rightarrow> int \<Rightarrow> int" where
  "min_go a b = (if a < b then a else b)"

definition partString :: "part \<Rightarrow> string" where
  "partString p = (case p of Text t \<Rightarrow> t | Stringer s \<Rightarrow> s | Other s \<Rightarrow> s)"

text \<open>The inner loop over \<^verbatim>\<open>cand.Content.Parts\<close>.\<close>

fun write_parts :: "part list \<Rightarrow> builder \<Rightarrow> builder" where
  "write_parts [] resultBuilder = resultBuilder"
| "write_parts (p # ps) resultBuilder =
     write_parts ps (WriteString (WriteString resultBuilder (partString p)) [CHR 0x0A])"

text \<open>The outer loop over \<^verbatim>\<open>resp.Candidates\<close>.\<close>

fun write_candidates :: "candidate list \<Rightarrow> builder \<Rightarrow> builder" where
  "write_candidates [] resultBuilder = resultBuilder"
| "write_candidates (cand # cands) resultBuilder =
     (case Content cand of
        None \<Rightarrow> write_candidates cands resultBuilder
      | Some c \<Rightarrow> write_candidates cands (write_parts (Parts c) resultBuilder))"

definition chunk_result :: "response \<Rightarrow> string" where
  "chunk_result resp = String (write_candidates (Candidates resp) [])"

text \<open>
  The \<^verbatim>\<open>for i := 0; i < chunkCount; i++\<close> loop. Its state is \<open>i\<close>, the \<open>results\<close> so
  far and the events so far. It returns what \<^verbatim>\<open>parseWithGenAI\<close> returns, the pair of
  the string and the error (\<open>None\<close> for nil), or a panic.
\<close>

function parse_loop ::
  "world \<Rightarrow> string list \<Rightarrow> string \<Rightarrow> int \<Rightarrow> int \<Rightarrow> string list \<Rightarrow> event list
   \<Rightarrow> (panic + string \<times> error option) \<times> event list" where
  "parse_loop w domChunks parseDescription chunkCount i results evs =
     (if i < chunkCount then
        (let evs1 = evs @ [Printed (i + 1) chunkCount] in
         if 0 \<le> i \<and> i < int (length domChunks) then
           (let evs2 = evs1 @ [Generated parseDescription (domChunks ! nat i)] in
            case GenerateContent w (nat i) parseDescription (domChunks ! nat i) of
              Inl err \<Rightarrow> (Inr ([], Some (ChunkFailed (i + 1) err)), evs2)
            | Inr resp \<Rightarrow>
                parse_loop w domChunks parseDescription chunkCount (i + 1)
                  (results @ [chunk_result resp]) evs2)
         else (Inl IndexOutOfRange, evs1))
      else (Inr (strings_Join results [CHR 0x0A], None), evs))"
  by pat_completeness auto
termination
  by (relation "measure (\<lambda>(w, domChunks, parseDescription, chunkCount, i, results, evs).
        nat (chunkCount - i))") auto

declare parse_loop.simps [simp del]

definition parseWithGenAI ::
  "world \<Rightarrow> string list \<Rightarrow> string \<Rightarrow> (panic + string \<times> error option) \<times> event list" where
  "parseWithGenAI w domChunks parseDescription =
     (let apiKey = Getenv w ''GEMINI_API_KEY'' in
      if apiKey = [] then (Inr ([], Some KeyNotSet), [])
      else
        (case NewClient w apiKey of
           Some err \<Rightarrow> (Inr ([], Some (ClientFailed err)), [ClientCreated apiKey])
         | None \<Rightarrow>
             (let maxChunks = 16;
                  chunkCount = min_go (int (length domChunks)) maxChunks;
                  r = parse_loop w domChunks parseDescription chunkCount 0 []
                        [ClientCreated apiKey]
              in (fst r, snd r @ [ClientClosed]))))"

text \<open>The model calls among the events, in order: the pairs (instruction, chunk).\<close>

fun invocations :: "event list \<Rightarrow> (string \<times> string) list" where
  "invocations [] = []"
| "invocations (Generated d c # evs) = (d, c) # invocations evs"
| "invocations (e # evs) = invocations evs"

section \<open>Words of the claims\<close>

text \<open>
  The events of iterations \<open>a\<close> up to \<open>b - 1\<close> of the loop when each of them reaches
  its model call: the progress line, then the call.
\<close>

definition call_events :: "string list \<Rightarrow> string \<Rightarrow> int \<Rightarrow> nat \<Rightarrow> nat \<Rightarrow> event list" where
  "call_events cs d c a b =
     concat (map (\<lambda>j. [Printed (int j + 1) c, Generated d (cs ! j)]) [a..<b])"

text \<open>All parts of a response, in order, and the text parts among them.\<close>

definition response_parts :: "response \<Rightarrow> part list" where
  "response_parts resp =
     concat (map (\<lambda>cand. case Content cand of None \<Rightarrow> [] | Some c \<Rightarrow> Parts c)
                 (Candidates resp))"

fun is_text :: "part \<Rightarrow> bool" where
  "is_text (Text t) = True"
| "is_text (Stringer s) = False"
| "is_text (Other s) = False"

definition text_parts :: "response \<Rightarrow> part list" where
  "text_parts resp = filter is_text (response_parts resp)"

section \<open>Example responses and worlds\<close>

text \<open>A response with one candidate whose content is exactly one text part.\<close>

definition text_response :: "string \<Rightarrow> response" where
  "text_response t = \<lparr>Candidates = [\<lparr>Content = Some \<lparr>Parts = [Text t]\<rparr>\<rparr>]\<rparr>"

text \<open>A response with one candidate whose content is one part that is not text.\<close>

definition blob_response :: response where
  "blob_response = \<lparr>Candidates = [\<lparr>Content = Some \<lparr>Parts = [Other ''{image/png []}'']\<rparr>\<rparr>]\<rparr>"

text \<open>
  A world where the key is set, the client is created and the call number \<open>n\<close> answers
  with the single text part OK-1, OK-2 or OK-3.
\<close>

definition world_ok :: world where
  "world_ok =
     \<lparr>Getenv = (\<lambda>name. if name = ''GEMINI_API_KEY'' then ''secret'' else []),
      NewClient = (\<lambda>key. None),
      GenerateContent = (\<lambda>n d c. Inr (text_response
         (if n = 0 then ''OK-1'' else if n = 1 then ''OK-2'' else ''OK-3'')))\<rparr>"

text \<open>The same world, but the second call fails.\<close>

definition world_fail2 :: world where
  "world_fail2 = world_ok\<lparr>GenerateContent :=
     (\<lambda>n d c. if n = 1 then Inl ''deadline exceeded'' else GenerateContent world_ok n d c)\<rparr>"

text \<open>The same world, but every call answers with a part that is not text.\<close>

definition world_blob :: world where
  "world_blob = world_ok\<lparr>GenerateContent := (\<lambda>n d c. Inr blob_response)\<rparr>"

text \<open>A list of seventeen chunks.\<close>

definition seventeen_chunks :: "string list" where
  "seventeen_chunks = map (\<lambda>n. replicate (Suc n) CHR ''x'') [0..<17]"

text \<open>The same world, but the key is not set.\<close>

definition world_nokey :: world where
  "world_nokey = world_ok\<lparr>Getenv := (\<lambda>name. [])\<rparr>"

text \<open>The same world, but every call answers with a response without candidates.\<close>

definition world_empty :: world where
  "world_empty = world_ok\<lparr>GenerateContent := (\<lambda>n d c. Inr \<lparr>Candidates = []\<rparr>)\<rparr>"

section \<open>Arithmetic of the chunk count\<close>

lemma count_covers:
  fixes n l :: nat
  assumes "0 < l"
  shows "n \<le> (n + l - 1) div l * l"
proof -
  have "(n + l - 1) mod l < l" using assms by simp
  moreover have "(n + l - 1) div l * l + (n + l - 1) mod l = n + l - 1" by simp
  ultimately show ?thesis by linarith
qed

lemma index_in_range:
  fixes n l j :: nat
  assumes "j < (n + l - 1) div l" "0 < l"
  shows "j * l < n"
proof -
  have "Suc j \<le> (n + l - 1) div l" using assms by simp
  then have "Suc j * l \<le> (n + l - 1) div l * l" by (rule mult_le_mono1)
  also have "\<dots> \<le> n + l - 1" by (rule div_times_less_eq_dividend)
  finally have "j * l + l \<le> n + l - 1" by simp
  then show ?thesis using assms(2) by linarith
qed

lemma ceil_count:
  fixes n l :: nat
  assumes "0 < l"
  shows "\<lceil>real n / real l\<rceil> = int ((n + l - 1) div l)"
proof (rule ceiling_unique)
  let ?z = "(n + l - 1) div l"
  have "real n \<le> real (?z * l)" using count_covers[OF assms, of n] by (simp only: of_nat_le_iff)
  then show "real n / real l \<le> of_int (int ?z)"
    using assms by (simp add: pos_divide_le_eq)
  show "of_int (int ?z) - 1 < real n / real l"
  proof (cases "?z = 0")
    case True
    have "(- 1 :: real) < 0" by simp
    also have "0 \<le> real n / real l" by simp
    finally show ?thesis unfolding True by simp
  next
    case False
    then have "?z - 1 < ?z" by simp
    then have "(?z - 1) * l < n" using assms by (rule index_in_range)
    then have "real ((?z - 1) * l) < real n" by (simp only: of_nat_less_iff)
    moreover have "real (?z - 1) = real ?z - 1" using False by (simp add: of_nat_diff)
    ultimately have "(real ?z - 1) * real l < real n" by simp
    then show ?thesis using assms by (simp add: pos_less_divide_eq)
  qed
qed

section \<open>The loop of splitDOMContent\<close>

lemma wrap64_id: "- 9223372036854775808 \<le> x \<Longrightarrow> x < 9223372036854775808 \<Longrightarrow> wrap64 x = x"
  unfolding wrap64_def by simp

lemma div_plus_self: "0 < (L::nat) \<Longrightarrow> (x + L) div L = Suc (x div L)"
  by simp

lemma count_step:
  fixes n i L :: nat
  assumes "i < n" "0 < L"
  shows "(n - i + L - 1) div L = Suc ((n - (i + L) + L - 1) div L)"
proof (cases "i + L \<le> n")
  case True
  then have "n - i + L - 1 = (n - (i + L) + L - 1) + L" using assms by arith
  then have "(n - i + L - 1) div L = ((n - (i + L) + L - 1) + L) div L" by (rule arg_cong)
  also have "\<dots> = Suc ((n - (i + L) + L - 1) div L)" using assms(2) by (rule div_plus_self)
  finally show ?thesis .
next
  case False
  then have a: "n - (i + L) + L - 1 = L - 1" by arith
  have "n - i + L - 1 = (n - i - 1) + L" using assms by arith
  then have "(n - i + L - 1) div L = ((n - i - 1) + L) div L" by (rule arg_cong)
  also have "\<dots> = Suc ((n - i - 1) div L)" using assms(2) by (rule div_plus_self)
  also have "(n - i - 1) div L = 0" using False assms by simp
  also have "0 = (L - 1) div L" using assms by simp
  finally show ?thesis unfolding a .
qed

lemma split_step:
  assumes "1 \<le> L" "L \<le> max_int64" "int (length D) \<le> 4611686018427387904"
    and "0 \<le> i" "i = 0 \<or> L \<le> i" "i < int (length D)"
  shows "splitDOMContent_loop D L i chunks =
         splitDOMContent_loop D L (i + L) (chunks @ [take (nat L) (drop (nat i) D)])"
proof -
  have w: "wrap64 (i + L) = i + L"
    using assms by (intro wrap64_id) (auto simp: max_int64_def)
  have "slice D i (if i + L > int (length D) then int (length D) else i + L)
        = Inr (take (nat L) (drop (nat i) D))"
  proof (cases "i + L > int (length D)")
    case True
    then have "length (drop (nat i) D) \<le> nat L" "length (drop (nat i) D) \<le> nat (int (length D) - i)"
      using assms by auto
    then have "take (nat (int (length D) - i)) (drop (nat i) D) = take (nat L) (drop (nat i) D)"
      by simp
    then show ?thesis using True assms by (simp add: slice_def)
  next
    case False
    then show ?thesis using assms by (simp add: slice_def)
  qed
  then show ?thesis
    using assms w by (subst splitDOMContent_loop.simps) (simp add: Let_def)
qed

lemma split_run:
  assumes "1 \<le> L" "L \<le> max_int64" "int (length D) \<le> 4611686018427387904"
  shows "0 \<le> i \<Longrightarrow> i = 0 \<or> L \<le> i \<Longrightarrow>
         splitDOMContent_loop D L i chunks =
         Some (Inr (chunks @ map (\<lambda>j. take (nat L) (drop (nat i + j * nat L) D))
                      [0..<(length D - nat i + nat L - 1) div nat L]))"
proof (induction "length D - nat i" arbitrary: i chunks rule: less_induct)
  case less
  show ?case
  proof (cases "i < int (length D)")
    case False
    then have "length D - nat i = 0" by simp
    moreover have "(nat L - 1) div nat L = 0" using assms by simp
    ultimately show ?thesis using False
      by (subst splitDOMContent_loop.simps) simp
  next
    case True
    let ?n = "\<lambda>i. (length D - nat i + nat L - 1) div nat L"
    have c: "?n i = Suc (?n (i + L))"
      using count_step[of "nat i" "length D" "nat L"] True less.prems assms
      by (simp add: nat_add_distrib)
    have ih: "splitDOMContent_loop D L (i + L) (chunks @ [take (nat L) (drop (nat i) D)]) =
         Some (Inr ((chunks @ [take (nat L) (drop (nat i) D)]) @ map (\<lambda>j. take (nat L) (drop (nat (i + L) + j * nat L) D))
                      [0..<?n (i + L)]))"
      using True less.prems assms by (intro less.hyps) auto
    have m: "map (\<lambda>j. take (nat L) (drop (nat i + j * nat L) D)) [0..<Suc (?n (i + L))]
          = take (nat L) (drop (nat i) D) # map (\<lambda>j. take (nat L) (drop (nat (i + L) + j * nat L) D)) [0..<?n (i + L)]"
    proof -
      have "nat (i + L) = nat i + nat L" using less.prems assms by (simp add: nat_add_distrib)
      then show ?thesis unfolding map_upt_Suc by (simp add: ac_simps)
    qed
    have "splitDOMContent_loop D L i chunks =
          splitDOMContent_loop D L (i + L) (chunks @ [take (nat L) (drop (nat i) D)])"
      by (rule split_step[OF assms less.prems True])
    also note ih
    finally show ?thesis
      unfolding c m by (simp only: append_assoc append_Cons append_Nil)
  qed
qed


lemma split_result:
  assumes "1 \<le> L" "L \<le> max_int64" "int (length D) \<le> 4611686018427387904"
  shows "splitDOMContent D L =
         Some (Inr (map (\<lambda>j. take (nat L) (drop (j * nat L) D))
                      [0..<(length D + nat L - 1) div nat L]))"
  unfolding splitDOMContent_def using split_run[OF assms, of 0 "[]"] by simp

lemma concat_pieces:
  "concat (map (\<lambda>j. take l (drop (j * l) xs)) [0..<n]) = take (n * l) xs"
proof (induction n)
  case 0
  show ?case by simp
next
  case (Suc n)
  have "take (Suc n * l) xs = take (n * l + l) xs" by (simp add: ac_simps)
  also have "\<dots> = take (n * l) xs @ take l (drop (n * l) xs)" by (rule take_add)
  finally show ?case using Suc by simp
qed

lemma split_zero_never_returns:
  assumes "splitDOMContent_loop D L i chunks = Some r"
  shows "\<not> (L = 0 \<and> i = 0 \<and> D \<noteq> [])"
proof (rule splitDOMContent_loop.raw_induct
    [where P = "\<lambda>D L i chunks r. \<not> (L = 0 \<and> i = 0 \<and> D \<noteq> [])", OF _ assms])
  fix f :: "string \<Rightarrow> int \<Rightarrow> int \<Rightarrow> string list \<Rightarrow> (panic + string list) option"
  fix D L i chunks r
  assume ih: "\<And>D L i chunks r. f D L i chunks = Some r \<Longrightarrow> \<not> (L = 0 \<and> i = 0 \<and> D \<noteq> [])"
  assume step: "(if i < int (length D)
      then let end0 = wrap64 (i + L);
               end1 = if int (length D) < end0 then int (length D) else end0
           in case slice D i end1 of Inl p \<Rightarrow> Some (Inl p)
              | Inr chunk \<Rightarrow> f D L (wrap64 (i + L)) (chunks @ [chunk])
      else Some (Inr chunks)) = Some r"
  show "\<not> (L = 0 \<and> i = 0 \<and> D \<noteq> [])"
  proof
    assume a: "L = 0 \<and> i = 0 \<and> D \<noteq> []"
    then have "slice D 0 0 = Inr []" by (simp add: slice_def)
    then have "f D 0 0 (chunks @ [[]]) = Some r"
      using step a by (simp add: wrap64_def)
    then show False using ih a by blast
  qed
qed

lemma split_negative_panics:
  assumes "L < 0" "is_int64 L" "D \<noteq> []"
  shows "splitDOMContent D L = Some (Inl SliceBoundsOutOfRange)"
proof -
  have "wrap64 L = L" using assms by (intro wrap64_id) (auto simp: is_int64_def max_int64_def)
  moreover have "slice D 0 L = Inl SliceBoundsOutOfRange" using assms by (simp add: slice_def)
  ultimately show ?thesis using assms
    unfolding splitDOMContent_def by (subst splitDOMContent_loop.simps) simp
qed

text \<open>
  Why the theorems on \<^verbatim>\<open>splitDOMContent\<close> bound the document: on a document of
  \<open>2^62 + 1\<close> bytes, more than any machine holds, with \<open>maxLength = 2^62\<close>, the second
  \<^verbatim>\<open>i + maxLength\<close> overflows and the slice expression panics.
\<close>

lemma split_overflow_panics:
  assumes "int (length D) = 4611686018427387905"
  shows "splitDOMContent D 4611686018427387904 = Some (Inl SliceBoundsOutOfRange)"
proof -
  have w1: "wrap64 4611686018427387904 = 4611686018427387904"
    and w2: "wrap64 9223372036854775808 = - 9223372036854775808"
    by (simp_all add: wrap64_def)
  have s1: "slice D 0 4611686018427387904 = Inr (take 4611686018427387904 D)"
    using assms by (simp add: slice_def)
  have s2: "slice D 4611686018427387904 (- 9223372036854775808) = Inl SliceBoundsOutOfRange"
    by (simp add: slice_def)
  have "splitDOMContent_loop D 4611686018427387904 4611686018427387904 [take 4611686018427387904 D]
        = Some (Inl SliceBoundsOutOfRange)"
    by (subst splitDOMContent_loop.simps) (simp add: assms w2 s2 Let_def)
  then show ?thesis
    unfolding splitDOMContent_def
    by (subst splitDOMContent_loop.simps) (simp add: assms w1 s1 Let_def)
qed

lemma split_empty: "splitDOMContent [] L = Some (Inr [])"
  unfolding splitDOMContent_def by (subst splitDOMContent_loop.simps) simp

text \<open>The loop run by hand on a seven-byte document.\<close>

lemma splitDOMContent_example: "splitDOMContent ''abcdefg'' 3 = Some (Inr [''abc'', ''def'', ''g''])"
  unfolding splitDOMContent_def
  by (simp add: splitDOMContent_loop.simps wrap64_def slice_def)

section \<open>The loop of printFormatted\<close>

lemma printFormatted_loop_done:
  "printFormatted_loop [] w result = Some (Inr result)"
  by (subst printFormatted_loop.simps) simp

lemma printFormatted_loop_last:
  assumes "text \<noteq> []" "int (length text) \<le> w"
  shows "printFormatted_loop text w result = Some (Inr (result @ [text @ [CHR 0x0A]]))"
  using assms
  by (subst printFormatted_loop.simps) (simp add: printFormatted_loop_done WriteString_def)

lemma printFormatted_loop_cut:
  assumes "0 \<le> w" "w < int (length text)"
  shows "printFormatted_loop text w result =
         printFormatted_loop (drop (nat w) text) w (result @ [take (nat w) text @ [CHR 0x0A]])"
proof -
  have "slice text 0 w = Inr (take (nat w) text)" using assms by (simp add: slice_def)
  moreover have "slice text w (int (length text)) = Inr (drop (nat w) text)"
    using assms by (simp add: slice_def nat_diff_distrib')
  moreover have "text \<noteq> []" using assms by auto
  ultimately show ?thesis using assms
    by (subst printFormatted_loop.simps) (simp add: WriteString_def)
qed

lemma printFormatted_loop_run:
  assumes "1 \<le> w"
  shows "\<exists>ls. printFormatted_loop text w result =
                   Some (Inr (result @ map (\<lambda>l. l @ [CHR 0x0A]) ls))
               \<and> (\<forall>l\<in>set ls. l \<noteq> [] \<and> int (length l) \<le> w)
               \<and> concat ls = text"
proof (induction "length text" arbitrary: "text" result rule: less_induct)
  case less
  consider "text = []" | "text \<noteq> []" "int (length text) \<le> w" | "w < int (length text)"
    by linarith
  then show ?case
  proof cases
    case 1
    have "printFormatted_loop text w result = Some (Inr (result @ map (\<lambda>l. l @ [CHR 0x0A]) []))"
      using 1 by (simp add: printFormatted_loop_done)
    then show ?thesis using 1 by (intro exI[of _ "[]"]) simp
  next
    case 2
    have "printFormatted_loop text w result = Some (Inr (result @ map (\<lambda>l. l @ [CHR 0x0A]) [text]))"
      using 2 by (simp add: printFormatted_loop_last)
    then show ?thesis using 2 by (intro exI[of _ "[text]"]) simp
  next
    case 3
    let ?line = "take (nat w) text" and ?rest = "drop (nat w) text"
    have "length ?rest < length text" using 3 assms by simp
    then obtain ls where
      r: "printFormatted_loop ?rest w (result @ [?line @ [CHR 0x0A]]) =
          Some (Inr ((result @ [?line @ [CHR 0x0A]]) @ map (\<lambda>l. l @ [CHR 0x0A]) ls))"
      and b: "\<forall>l\<in>set ls. l \<noteq> [] \<and> int (length l) \<le> w"
      and c: "concat ls = ?rest"
      using less.hyps by blast
    have "printFormatted_loop text w result =
          Some (Inr (result @ map (\<lambda>l. l @ [CHR 0x0A]) (?line # ls)))"
      using printFormatted_loop_cut[of w "text" result] r 3 assms by simp
    moreover have "?line \<noteq> [] \<and> int (length ?line) \<le> w" using 3 assms by auto
    moreover have "concat (?line # ls) = text" using c by simp
    ultimately show ?thesis using b by (intro exI[of _ "?line # ls"]) simp
  qed
qed

text \<open>The loop run by hand on a seven-byte text.\<close>

lemma printFormatted_example:
  "printFormatted ''abcdefg'' 3 = Some (Inr (''abc'' @ [CHR 0x0A] @ ''def'' @ [CHR 0x0A] @ ''g'' @ [CHR 0x0A]))"
  unfolding printFormatted_def
  by (simp add: printFormatted_loop.simps slice_def WriteString_def String_def)

section \<open>The loop of parseWithGenAI\<close>

lemma invocations_append: "invocations (xs @ ys) = invocations xs @ invocations ys"
  by (induction xs rule: invocations.induct) simp_all

lemma call_events_Cons:
  "a < b \<Longrightarrow> call_events cs d c a b =
     Printed (int a + 1) c # Generated d (cs ! a) # call_events cs d c (Suc a) b"
  by (simp add: call_events_def upt_conv_Cons)

lemma invocations_call_events:
  "invocations (call_events cs d c a b) = map (\<lambda>j. (d, cs ! j)) [a..<b]"
  unfolding call_events_def by (induction b) (simp_all add: invocations_append)

lemma map_nth_take:
  "n \<le> length cs \<Longrightarrow> map (\<lambda>j. (d, cs ! j)) [0..<n] = map (Pair d) (take n cs)"
  by (rule nth_equalityI) simp_all

lemma parse_loop_step_ok:
  assumes "a < n" "a < length cs" "GenerateContent w a d (cs ! a) = Inr resp"
  shows "parse_loop w cs d (int n) (int a) results evs =
         parse_loop w cs d (int n) (int (Suc a)) (results @ [chunk_result resp])
           (evs @ [Printed (int a + 1) (int n), Generated d (cs ! a)])"
  using assms by (subst parse_loop.simps) (simp add: Let_def add.commute)

lemma parse_loop_step_fail:
  assumes "a < n" "a < length cs" "GenerateContent w a d (cs ! a) = Inl err"
  shows "parse_loop w cs d (int n) (int a) results evs =
         (Inr ([], Some (ChunkFailed (int a + 1) err)),
          evs @ [Printed (int a + 1) (int n), Generated d (cs ! a)])"
  using assms by (subst parse_loop.simps) (simp add: Let_def)

lemma parse_loop_end:
  "parse_loop w cs d (int n) (int n) results evs =
     (Inr (strings_Join results [CHR 0x0A], None), evs)"
  by (subst parse_loop.simps) simp

lemma parse_loop_all_ok:
  assumes "n \<le> length cs"
    and "\<forall>j. a \<le> j \<and> j < n \<longrightarrow> (\<exists>resp. GenerateContent w j d (cs ! j) = Inr resp)"
    and "a \<le> n"
  shows "parse_loop w cs d (int n) (int a) results evs =
         (Inr (strings_Join
                 (results @ map (\<lambda>j. chunk_result (projr (GenerateContent w j d (cs ! j)))) [a..<n])
                 [CHR 0x0A], None),
          evs @ call_events cs d (int n) a n)"
  using assms(2,3)
proof (induction "n - a" arbitrary: a results evs)
  case 0
  then have "a = n" by simp
  then show ?case by (simp add: parse_loop_end call_events_def)
next
  case (Suc k)
  then have lt: "a < n" by simp
  then obtain resp where r: "GenerateContent w a d (cs ! a) = Inr resp"
    using Suc.prems by blast
  have "parse_loop w cs d (int n) (int a) results evs =
        parse_loop w cs d (int n) (int (Suc a)) (results @ [chunk_result resp])
           (evs @ [Printed (int a + 1) (int n), Generated d (cs ! a)])"
    using lt assms(1) r by (intro parse_loop_step_ok) simp_all
  also have "\<dots> = (Inr (strings_Join
                 ((results @ [chunk_result resp]) @
                  map (\<lambda>j. chunk_result (projr (GenerateContent w j d (cs ! j)))) [Suc a..<n])
                 [CHR 0x0A], None),
          (evs @ [Printed (int a + 1) (int n), Generated d (cs ! a)]) @ call_events cs d (int n) (Suc a) n)"
    using Suc.hyps(2) Suc.prems lt by (intro Suc.hyps(1)) auto
  finally show ?case using lt r by (simp add: upt_conv_Cons call_events_Cons)
qed

lemma parse_loop_first_failure:
  assumes "k < n" "n \<le> length cs"
    and "GenerateContent w k d (cs ! k) = Inl err"
    and "\<forall>j. a \<le> j \<and> j < k \<longrightarrow> (\<exists>resp. GenerateContent w j d (cs ! j) = Inr resp)"
    and "a \<le> k"
  shows "parse_loop w cs d (int n) (int a) results evs =
         (Inr ([], Some (ChunkFailed (int k + 1) err)), evs @ call_events cs d (int n) a (Suc k))"
  using assms(4,5)
proof (induction "k - a" arbitrary: a results evs)
  case 0
  then have "a = k" by simp
  then show ?case using assms(1,2,3)
    by (simp add: parse_loop_step_fail call_events_def)
next
  case (Suc m)
  then have lt: "a < k" by simp
  then obtain resp where r: "GenerateContent w a d (cs ! a) = Inr resp"
    using Suc.prems by blast
  have "parse_loop w cs d (int n) (int a) results evs =
        parse_loop w cs d (int n) (int (Suc a)) (results @ [chunk_result resp])
           (evs @ [Printed (int a + 1) (int n), Generated d (cs ! a)])"
    using lt assms(1,2) r by (intro parse_loop_step_ok) simp_all
  also have "\<dots> = (Inr ([], Some (ChunkFailed (int k + 1) err)),
          (evs @ [Printed (int a + 1) (int n), Generated d (cs ! a)]) @ call_events cs d (int n) (Suc a) (Suc k))"
    using Suc.hyps(2) Suc.prems lt by (intro Suc.hyps(1)) auto
  finally show ?case using lt by (simp add: call_events_Cons)
qed

lemma parse_loop_calls_prefix:
  assumes "n \<le> length cs" "a \<le> n"
  shows "\<exists>m. a \<le> m \<and> m \<le> n \<and>
           invocations (snd (parse_loop w cs d (int n) (int a) results evs)) =
           invocations evs @ map (\<lambda>j. (d, cs ! j)) [a..<m]"
  using assms(2)
proof (induction "n - a" arbitrary: a results evs)
  case 0
  then have "a = n" by simp
  then show ?case by (intro exI[of _ n]) (simp add: parse_loop_end)
next
  case (Suc k)
  then have lt: "a < n" by simp
  show ?case
  proof (cases "GenerateContent w a d (cs ! a)")
    case (Inl err)
    have "parse_loop w cs d (int n) (int a) results evs =
         (Inr ([], Some (ChunkFailed (int a + 1) err)),
          evs @ [Printed (int a + 1) (int n), Generated d (cs ! a)])"
      using lt assms(1) Inl by (intro parse_loop_step_fail) simp_all
    then show ?thesis using lt
      by (intro exI[of _ "Suc a"]) (simp add: invocations_append)
  next
    case (Inr resp)
    have e: "parse_loop w cs d (int n) (int a) results evs =
        parse_loop w cs d (int n) (int (Suc a)) (results @ [chunk_result resp])
           (evs @ [Printed (int a + 1) (int n), Generated d (cs ! a)])"
      using lt assms(1) Inr by (intro parse_loop_step_ok) simp_all
    obtain m where m: "Suc a \<le> m" "m \<le> n"
      "invocations (snd (parse_loop w cs d (int n) (int (Suc a)) (results @ [chunk_result resp])
           (evs @ [Printed (int a + 1) (int n), Generated d (cs ! a)]))) =
       invocations (evs @ [Printed (int a + 1) (int n), Generated d (cs ! a)]) @
       map (\<lambda>j. (d, cs ! j)) [Suc a..<m]"
      using Suc.hyps(1)[of "Suc a"] Suc.hyps(2) lt by force
    have "a < m" using m(1) by simp
    then have "[a..<m] = a # [Suc a..<m]" by (rule upt_conv_Cons)
    then show ?thesis using m e
      by (intro exI[of _ m]) (simp add: invocations_append)
  qed
qed


lemma min_go_nat: "min_go (int a) 16 = int (min a 16)"
  by (simp add: min_go_def min_def)

lemma parseWithGenAI_run:
  assumes "Getenv w ''GEMINI_API_KEY'' \<noteq> []"
    and "NewClient w (Getenv w ''GEMINI_API_KEY'') = None"
  shows "parseWithGenAI w cs d =
         (fst (parse_loop w cs d (int (min (length cs) 16)) (int 0) []
                 [ClientCreated (Getenv w ''GEMINI_API_KEY'')]),
          snd (parse_loop w cs d (int (min (length cs) 16)) (int 0) []
                 [ClientCreated (Getenv w ''GEMINI_API_KEY'')]) @ [ClientClosed])"
  using assms by (simp add: parseWithGenAI_def Let_def min_go_nat)

lemma parseWithGenAI_all_ok:
  assumes "Getenv w ''GEMINI_API_KEY'' \<noteq> []"
    and "NewClient w (Getenv w ''GEMINI_API_KEY'') = None"
    and "\<forall>j<min (length cs) 16. \<exists>resp. GenerateContent w j d (cs ! j) = Inr resp"
  shows "parseWithGenAI w cs d =
         (Inr (strings_Join
                 (map (\<lambda>j. chunk_result (projr (GenerateContent w j d (cs ! j))))
                      [0..<min (length cs) 16]) [CHR 0x0A], None),
          [ClientCreated (Getenv w ''GEMINI_API_KEY'')]
            @ call_events cs d (int (min (length cs) 16)) 0 (min (length cs) 16)
            @ [ClientClosed])"
proof -
  have "parse_loop w cs d (int (min (length cs) 16)) (int 0) []
          [ClientCreated (Getenv w ''GEMINI_API_KEY'')] =
        (Inr (strings_Join
                 ([] @ map (\<lambda>j. chunk_result (projr (GenerateContent w j d (cs ! j))))
                      [0..<min (length cs) 16]) [CHR 0x0A], None),
          [ClientCreated (Getenv w ''GEMINI_API_KEY'')]
            @ call_events cs d (int (min (length cs) 16)) 0 (min (length cs) 16))"
    using assms(3) by (intro parse_loop_all_ok) simp_all
  then show ?thesis unfolding parseWithGenAI_run[OF assms(1,2)] by simp
qed

lemma invocations_all:
  "n \<le> length cs \<Longrightarrow>
   invocations ([ClientCreated key] @ call_events cs d c 0 n @ [ClientClosed])
     = map (Pair d) (take n cs)"
  by (simp add: invocations_append invocations_call_events map_nth_take)

section \<open>The per-chunk result\<close>

lemma write_parts_String:
  "String (write_parts ps b) = String b @ concat (map (\<lambda>p. partString p @ [CHR 0x0A]) ps)"
  by (induction ps arbitrary: b) (simp_all add: String_def WriteString_def)

lemma write_candidates_String:
  "String (write_candidates cands b) =
   String b @ concat (map (\<lambda>p. partString p @ [CHR 0x0A])
     (concat (map (\<lambda>cand. case Content cand of None \<Rightarrow> [] | Some c \<Rightarrow> Parts c) cands)))"
  by (induction cands arbitrary: b) (simp_all add: write_parts_String split: option.split)

lemma chunk_result_parts:
  "chunk_result resp = concat (map (\<lambda>p. partString p @ [CHR 0x0A]) (response_parts resp))"
  unfolding chunk_result_def response_parts_def write_candidates_String
  by (simp add: String_def)

lemma chunk_result_text: "chunk_result (text_response t) = t @ [CHR 0x0A]"
  by (simp add: chunk_result_parts response_parts_def text_response_def partString_def)

section \<open>Claims about splitDOMContent\<close>

text \<open>
  The three theorems of this section share their hypotheses: \<open>maxLength\<close> is at least 1
  and is an \<^verbatim>\<open>int\<close>, and the document has at most \<open>2^62\<close> bytes, which every string
  that fits in the memory of a 64-bit machine does. Under them \<^verbatim>\<open>i + maxLength\<close> never
  overflows.
\<close>

text \<open>
  Claim C1. For every document \<open>D\<close> and every \<open>maxLength\<close> of at least 1,
  \<^verbatim>\<open>splitDOMContent\<close> returns, and the concatenation of the chunks it returns, in order,
  is \<open>D\<close>.
\<close>

theorem splitDOMContent_roundtrip:
  assumes "1 \<le> L" "L \<le> max_int64" "int (length D) \<le> 4611686018427387904"
  shows "\<exists>chunks. splitDOMContent D L = Some (Inr chunks) \<and> concat chunks = D"
proof -
  let ?n = "(length D + nat L - 1) div nat L"
  have "0 < nat L" using assms by simp
  then have "length D \<le> ?n * nat L" by (rule count_covers)
  then have "take (?n * nat L) D = D" by simp
  then have "concat (map (\<lambda>j. take (nat L) (drop (j * nat L) D)) [0..<?n]) = D"
    by (simp only: concat_pieces)
  then show ?thesis using split_result[OF assms] by blast
qed

theorem splitDOMContent_roundtrip_witness:
  "(1::int) \<le> 3 \<and> 3 \<le> max_int64 \<and> int (length ''abcdefg'') \<le> 4611686018427387904 \<and>
   (\<exists>chunks. splitDOMContent ''abcdefg'' 3 = Some (Inr chunks) \<and> concat chunks = ''abcdefg'')"
  using splitDOMContent_roundtrip[of 3 "''abcdefg''"] by (simp add: max_int64_def)

text \<open>
  Claim C6. For every document \<open>D\<close> and every \<open>maxLength\<close> of at least 1,
  \<^verbatim>\<open>splitDOMContent\<close> returns \<open>ceil(len(D) / maxLength)\<close> chunks and chunk \<open>j\<close> is
  the slice of \<open>D\<close> from byte \<open>j * maxLength\<close> to byte
  \<open>min((j + 1) * maxLength, len(D))\<close>; for the empty document it returns the empty list,
  whatever \<open>maxLength\<close> is.
\<close>

theorem splitDOMContent_chunks:
  assumes "1 \<le> L" "L \<le> max_int64" "int (length D) \<le> 4611686018427387904"
  shows "(\<exists>chunks. splitDOMContent D L = Some (Inr chunks)
            \<and> int (length chunks) = \<lceil>real (length D) / real_of_int L\<rceil>
            \<and> (\<forall>j<length chunks.
                  slice D (int j * L) (min ((int j + 1) * L) (int (length D))) = Inr (chunks ! j)))
         \<and> splitDOMContent [] L' = Some (Inr [])"
proof -
  let ?n = "(length D + nat L - 1) div nat L"
  let ?cs = "map (\<lambda>j. take (nat L) (drop (j * nat L) D)) [0..<?n]"
  have l: "0 < nat L" "int (nat L) = L" using assms by simp_all
  have "\<lceil>real (length D) / real (nat L)\<rceil> = int ?n" using l(1) by (rule ceil_count)
  moreover have "real (nat L) = real_of_int L" using assms by simp
  ultimately have len: "int (length ?cs) = \<lceil>real (length D) / real_of_int L\<rceil>" by simp
  have nth: "slice D (int j * L) (min ((int j + 1) * L) (int (length D))) = Inr (?cs ! j)"
    if "j < length ?cs" for j
  proof -
    have j: "j < ?n" using that by simp
    then have lt: "j * nat L < length D" using l(1) by (rule index_in_range)
    have a: "int j * L = int (j * nat L)" using l(2) by simp
    have b: "(int j + 1) * L = int (j * nat L + nat L)" using l(2) by (simp add: algebra_simps)
    have c: "min (int (j * nat L + nat L)) (int (length D)) = int (min (j * nat L + nat L) (length D))"
      by (simp only: of_nat_min)
    have "take (min (j * nat L + nat L) (length D) - j * nat L) (drop (j * nat L) D)
          = take (nat L) (drop (j * nat L) D)"
    proof (cases "j * nat L + nat L \<le> length D")
      case True
      then show ?thesis by (simp add: min_def)
    next
      case False
      then have "min (j * nat L + nat L) (length D) - j * nat L = length (drop (j * nat L) D)"
        by (simp add: min_def)
      moreover have "length (drop (j * nat L) D) \<le> nat L" using False by simp
      ultimately show ?thesis by simp
    qed
    moreover have "?cs ! j = take (nat L) (drop (j * nat L) D)" using j by simp
    moreover have "j * nat L \<le> min (j * nat L + nat L) (length D)" using lt by simp
    ultimately show ?thesis
      unfolding a b c slice_def by (simp del: of_nat_add of_nat_mult of_nat_min add: nat_diff_distrib' flip: of_nat_diff)
  qed
  have "splitDOMContent [] L' = Some (Inr [])" by (rule split_empty)
  then show ?thesis using split_result[OF assms] len nth by blast
qed

theorem splitDOMContent_chunks_witness:
  "(1::int) \<le> 3 \<and> 3 \<le> max_int64 \<and> int (length ''abcdefg'') \<le> 4611686018427387904 \<and>
   (\<exists>chunks. splitDOMContent ''abcdefg'' 3 = Some (Inr chunks)
            \<and> int (length chunks) = \<lceil>real (length ''abcdefg'') / real_of_int 3\<rceil>
            \<and> (\<forall>j<length chunks.
                  slice ''abcdefg'' (int j * 3) (min ((int j + 1) * 3) (int (length ''abcdefg''))) = Inr (chunks ! j)))
         \<and> splitDOMContent [] 0 = Some (Inr [])"
  using splitDOMContent_chunks[of 3 "''abcdefg''" 0] by (simp add: max_int64_def)

text \<open>
  Claim C9. For every document and every \<open>maxLength\<close> of at least 1 the loop ends and
  \<^verbatim>\<open>splitDOMContent\<close> returns a chunk list. Nothing rejects a \<open>maxLength\<close> below 1: on a
  document that is not empty the loop never ends when \<open>maxLength\<close> is 0, and the first
  slice expression panics when it is negative.
\<close>

theorem splitDOMContent_terminates:
  assumes "1 \<le> L" "L \<le> max_int64" "int (length D) \<le> 4611686018427387904"
  shows "(\<exists>chunks. splitDOMContent D L = Some (Inr chunks))
         \<and> (D' \<noteq> [] \<longrightarrow> splitDOMContent D' 0 = None)
         \<and> (D' \<noteq> [] \<and> L' < 0 \<and> is_int64 L' \<longrightarrow>
              splitDOMContent D' L' = Some (Inl SliceBoundsOutOfRange))"
proof -
  have "splitDOMContent D' 0 = None" if "D' \<noteq> []"
  proof (cases "splitDOMContent D' 0")
    case None
    then show ?thesis .
  next
    case (Some r)
    then have "splitDOMContent_loop D' 0 0 [] = Some r" by (simp only: splitDOMContent_def)
    then have "\<not> ((0::int) = 0 \<and> (0::int) = 0 \<and> D' \<noteq> [])" by (rule split_zero_never_returns)
    then show ?thesis using that by simp
  qed
  moreover have "splitDOMContent D' L' = Some (Inl SliceBoundsOutOfRange)"
    if "D' \<noteq> [] \<and> L' < 0 \<and> is_int64 L'"
    using that by (intro split_negative_panics) simp_all
  ultimately show ?thesis using split_result[OF assms] by blast
qed

theorem splitDOMContent_terminates_witness:
  "(\<exists>chunks. splitDOMContent ''abcdefg'' 3 = Some (Inr chunks))
   \<and> splitDOMContent ''a'' 0 = None
   \<and> splitDOMContent ''a'' (- 1) = Some (Inl SliceBoundsOutOfRange)"
  using splitDOMContent_terminates[of 3 "''abcdefg''" "''a''" "- 1"]
  by (simp add: max_int64_def is_int64_def)

section \<open>Claims about printFormatted\<close>

text \<open>
  Claim C7. For every text and every width of at least 1, \<^verbatim>\<open>printFormatted\<close> returns
  the concatenation of the lines it wrote to its builder. Every write is a line followed
  by the terminator, a line feed; the line has at most \<open>width\<close> bytes; and the lines
  without their terminators, concatenated in order, are the text. The lines are those the
  loop emits: a line feed inside the text stays inside its line.
\<close>

theorem printFormatted_wraps:
  assumes "1 \<le> width"
  shows "\<exists>writes. printFormatted_loop text width [] = Some (Inr writes)
            \<and> printFormatted text width = Some (Inr (concat writes))
            \<and> (\<forall>x\<in>set writes. x \<noteq> [] \<and> last x = CHR 0x0A \<and> int (length (butlast x)) \<le> width)
            \<and> concat (map butlast writes) = text"
proof -
  obtain ls where
    r: "printFormatted_loop text width [] = Some (Inr ([] @ map (\<lambda>l. l @ [CHR 0x0A]) ls))"
    and b: "\<forall>l\<in>set ls. l \<noteq> [] \<and> int (length l) \<le> width"
    and c: "concat ls = text"
    using printFormatted_loop_run[OF assms, of "text" "[]"] by blast
  let ?ws = "map (\<lambda>l. l @ [CHR 0x0A]) ls"
  have "printFormatted text width = Some (Inr (concat ?ws))"
    using r by (simp add: printFormatted_def String_def)
  moreover have "\<forall>x\<in>set ?ws. x \<noteq> [] \<and> last x = CHR 0x0A \<and> int (length (butlast x)) \<le> width"
    using b by simp
  moreover have "concat (map butlast ?ws) = text" using c by (simp add: comp_def)
  ultimately show ?thesis using r by (intro exI[of _ ?ws]) simp
qed

theorem printFormatted_wraps_witness:
  "(1::int) \<le> 3 \<and> (\<exists>writes. printFormatted_loop ''abcdefg'' 3 [] = Some (Inr writes)
            \<and> printFormatted ''abcdefg'' 3 = Some (Inr (concat writes))
            \<and> (\<forall>x\<in>set writes. x \<noteq> [] \<and> last x = CHR 0x0A \<and> int (length (butlast x)) \<le> 3)
            \<and> concat (map butlast writes) = ''abcdefg'')"
  using printFormatted_wraps[of 3 "''abcdefg''"] by simp

text \<open>
  Claim C10. For every width, also 0 or negative, \<^verbatim>\<open>printFormatted\<close> of the empty text
  returns the empty string: the loop body never runs and nothing is written.
\<close>

theorem printFormatted_empty: "printFormatted [] width = Some (Inr [])"
  by (simp add: printFormatted_def printFormatted_loop_done String_def)

section \<open>Claims about parseWithGenAI\<close>

text \<open>
  Claim C2 as it is stated fails. In the world \<open>world_ok\<close> the key is set, the client is
  created and the three calls answer with the single text parts OK-1, OK-2 and OK-3, yet
  the string returned for three chunks is not OK-1, OK-2 and OK-3 separated by one line
  feed each.
\<close>

theorem parseWithGenAI_three_ok_counterexample:
  "Getenv world_ok ''GEMINI_API_KEY'' \<noteq> []
   \<and> NewClient world_ok (Getenv world_ok ''GEMINI_API_KEY'') = None
   \<and> GenerateContent world_ok 0 ''x'' ''a'' = Inr (text_response ''OK-1'')
   \<and> GenerateContent world_ok 1 ''x'' ''b'' = Inr (text_response ''OK-2'')
   \<and> GenerateContent world_ok 2 ''x'' ''c'' = Inr (text_response ''OK-3'')
   \<and> fst (parseWithGenAI world_ok [''a'', ''b'', ''c''] ''x'')
       \<noteq> Inr (''OK-1'' @ [CHR 0x0A] @ ''OK-2'' @ [CHR 0x0A] @ ''OK-3'', None)"
  by (simp add: world_ok_def parseWithGenAI_def min_go_def parse_loop.simps chunk_result_text)

text \<open>
  Claim C2, amended. When the batch is three chunks and the call for chunk \<open>i\<close> answers
  with exactly one text part OK-i, \<^verbatim>\<open>parseWithGenAI\<close> returns the three per-chunk results
  OK-1, OK-2 and OK-3, each followed by a line feed, joined with one line feed in batch
  order; that is, OK-1, two line feeds, OK-2, two line feeds, OK-3, one line feed. The
  per-chunk result of a response is each of its parts followed by a line feed, in order.
\<close>

theorem parseWithGenAI_three_ok:
  assumes "Getenv w ''GEMINI_API_KEY'' \<noteq> []"
    and "NewClient w (Getenv w ''GEMINI_API_KEY'') = None"
    and "length cs = 3"
    and "GenerateContent w 0 d (cs ! 0) = Inr (text_response ''OK-1'')"
    and "GenerateContent w 1 d (cs ! 1) = Inr (text_response ''OK-2'')"
    and "GenerateContent w 2 d (cs ! 2) = Inr (text_response ''OK-3'')"
  shows "fst (parseWithGenAI w cs d) =
           Inr (strings_Join [''OK-1'' @ [CHR 0x0A], ''OK-2'' @ [CHR 0x0A], ''OK-3'' @ [CHR 0x0A]]
                  [CHR 0x0A], None)
         \<and> strings_Join [''OK-1'' @ [CHR 0x0A], ''OK-2'' @ [CHR 0x0A], ''OK-3'' @ [CHR 0x0A]]
               [CHR 0x0A]
             = ''OK-1'' @ [CHR 0x0A, CHR 0x0A] @ ''OK-2'' @ [CHR 0x0A, CHR 0x0A]
               @ ''OK-3'' @ [CHR 0x0A]
         \<and> chunk_result resp =
             concat (map (\<lambda>p. partString p @ [CHR 0x0A]) (response_parts resp))"
proof -
  have n: "min (length cs) 16 = 3" using assms(3) by simp
  have u: "[0..<3] = [0, 1, 2::nat]" by (simp add: upt_conv_Cons)
  have "\<forall>j<3. \<exists>resp. GenerateContent w j d (cs ! j) = Inr resp"
  proof (intro allI impI)
    fix j :: nat
    assume "j < 3"
    then consider "j = 0" | "j = 1" | "j = 2" by linarith
    then show "\<exists>resp. GenerateContent w j d (cs ! j) = Inr resp"
      using assms(4,5,6) by cases auto
  qed
  then have "\<forall>j<min (length cs) 16. \<exists>resp. GenerateContent w j d (cs ! j) = Inr resp"
    unfolding n .
  then have "fst (parseWithGenAI w cs d) =
      Inr (strings_Join (map (\<lambda>j. chunk_result (projr (GenerateContent w j d (cs ! j))))
                      [0..<min (length cs) 16]) [CHR 0x0A], None)"
    using parseWithGenAI_all_ok[OF assms(1,2)] by simp
  then have "fst (parseWithGenAI w cs d) =
           Inr (strings_Join [''OK-1'' @ [CHR 0x0A], ''OK-2'' @ [CHR 0x0A], ''OK-3'' @ [CHR 0x0A]]
                  [CHR 0x0A], None)"
    unfolding n u using assms(4,5,6) by (simp add: chunk_result_text)
  moreover have "chunk_result resp =
             concat (map (\<lambda>p. partString p @ [CHR 0x0A]) (response_parts resp))"
    by (rule chunk_result_parts)
  ultimately show ?thesis by simp
qed

theorem parseWithGenAI_three_ok_witness:
  "fst (parseWithGenAI world_ok [''a'', ''b'', ''c''] ''x'') =
         Inr (''OK-1'' @ [CHR 0x0A, CHR 0x0A] @ ''OK-2'' @ [CHR 0x0A, CHR 0x0A]
              @ ''OK-3'' @ [CHR 0x0A], None)
   \<and> chunk_result (text_response ''OK-1'') = ''OK-1'' @ [CHR 0x0A]"
  using parseWithGenAI_three_ok[of world_ok "[''a'', ''b'', ''c'']" "''x''" "text_response ''OK-1''"]
  by (simp add: world_ok_def response_parts_def text_response_def partString_def)

text \<open>
  Claim C3. Whatever the world does, the model calls \<^verbatim>\<open>parseWithGenAI\<close> makes are
  calls on a prefix of the chunk list, in order, of length at most \<open>min(len(chunks), 16)\<close>.
  When the key is set, the client is created and no call fails, they are exactly the
  first \<open>min(len(chunks), 16)\<close> chunks and the function returns no error: the chunks
  beyond the sixteenth are dropped silently. With seventeen chunks the first sixteen are
  submitted.
\<close>

theorem parseWithGenAI_cap:
  "(\<exists>m\<le>min (length cs) 16.
      invocations (snd (parseWithGenAI w cs d)) = map (Pair d) (take m cs))
   \<and> (Getenv w ''GEMINI_API_KEY'' \<noteq> []
        \<and> NewClient w (Getenv w ''GEMINI_API_KEY'') = None
        \<and> (\<forall>j<min (length cs) 16. \<exists>resp. GenerateContent w j d (cs ! j) = Inr resp)
      \<longrightarrow> invocations (snd (parseWithGenAI w cs d)) = map (Pair d) (take 16 cs)
        \<and> length (invocations (snd (parseWithGenAI w cs d))) = min (length cs) 16
        \<and> (\<exists>s. fst (parseWithGenAI w cs d) = Inr (s, None)))"
proof
  let ?key = "Getenv w ''GEMINI_API_KEY''"
  let ?n = "min (length cs) 16"
  show "\<exists>m\<le>?n. invocations (snd (parseWithGenAI w cs d)) = map (Pair d) (take m cs)"
  proof (cases "?key \<noteq> [] \<and> NewClient w ?key = None")
    case False
    then have "invocations (snd (parseWithGenAI w cs d)) = []"
      by (auto simp: parseWithGenAI_def Let_def split: option.splits)
    then show ?thesis by (intro exI[of _ 0]) simp
  next
    case True
    obtain m where m: "m \<le> ?n"
      "invocations (snd (parse_loop w cs d (int ?n) (int 0) [] [ClientCreated ?key])) =
       invocations [ClientCreated ?key] @ map (\<lambda>j. (d, cs ! j)) [0..<m]"
      using parse_loop_calls_prefix[of ?n cs 0 w d "[]" "[ClientCreated ?key]"] by auto
    have "map (\<lambda>j. (d, cs ! j)) [0..<m] = map (Pair d) (take m cs)"
      using m(1) by (intro map_nth_take) simp
    then show ?thesis using m True
      by (intro exI[of _ m]) (simp add: parseWithGenAI_run invocations_append)
  qed
  show "?key \<noteq> [] \<and> NewClient w ?key = None
        \<and> (\<forall>j<?n. \<exists>resp. GenerateContent w j d (cs ! j) = Inr resp)
      \<longrightarrow> invocations (snd (parseWithGenAI w cs d)) = map (Pair d) (take 16 cs)
        \<and> length (invocations (snd (parseWithGenAI w cs d))) = ?n
        \<and> (\<exists>s. fst (parseWithGenAI w cs d) = Inr (s, None))"
  proof
    assume a: "?key \<noteq> [] \<and> NewClient w ?key = None
        \<and> (\<forall>j<?n. \<exists>resp. GenerateContent w j d (cs ! j) = Inr resp)"
    have "take ?n cs = take 16 cs" by (simp add: min_def)
    then show "invocations (snd (parseWithGenAI w cs d)) = map (Pair d) (take 16 cs)
        \<and> length (invocations (snd (parseWithGenAI w cs d))) = ?n
        \<and> (\<exists>s. fst (parseWithGenAI w cs d) = Inr (s, None))"
      using a invocations_all[of ?n cs ?key d "int ?n"]
      by (simp add: parseWithGenAI_all_ok)
  qed
qed

theorem parseWithGenAI_cap_witness:
  "length seventeen_chunks = 17
   \<and> invocations (snd (parseWithGenAI world_ok seventeen_chunks ''x''))
       = map (Pair ''x'') (take 16 seventeen_chunks)
   \<and> length (invocations (snd (parseWithGenAI world_ok seventeen_chunks ''x''))) = 16
   \<and> (\<exists>s. fst (parseWithGenAI world_ok seventeen_chunks ''x'') = Inr (s, None))"
proof -
  have "length seventeen_chunks = 17" by (simp add: seventeen_chunks_def)
  moreover have "Getenv world_ok ''GEMINI_API_KEY'' \<noteq> []"
    "NewClient world_ok (Getenv world_ok ''GEMINI_API_KEY'') = None"
    "\<forall>j<min (length seventeen_chunks) 16.
       \<exists>resp. GenerateContent world_ok j ''x'' (seventeen_chunks ! j) = Inr resp"
    by (simp_all add: world_ok_def)
  ultimately show ?thesis
    using parseWithGenAI_cap[of seventeen_chunks world_ok "''x''"] by simp
qed

text \<open>
  Claim C4. When the key is set, the client is created and the call for the chunk at
  position \<open>k\<close> (from 0) is the first that fails, \<^verbatim>\<open>parseWithGenAI\<close> returns the empty
  string and the error that carries the index \<open>k + 1\<close> and the error of the call, and the
  calls it made are those for the first \<open>k + 1\<close> chunks: no later chunk is submitted. With
  three chunks and a failing second call the index is 2.
\<close>

theorem parseWithGenAI_abort:
  assumes "Getenv w ''GEMINI_API_KEY'' \<noteq> []"
    and "NewClient w (Getenv w ''GEMINI_API_KEY'') = None"
    and "k < min (length cs) 16"
    and "\<forall>j<k. \<exists>resp. GenerateContent w j d (cs ! j) = Inr resp"
    and "GenerateContent w k d (cs ! k) = Inl err"
  shows "fst (parseWithGenAI w cs d) = Inr ([], Some (ChunkFailed (int k + 1) err))
         \<and> invocations (snd (parseWithGenAI w cs d)) = map (Pair d) (take (Suc k) cs)"
proof -
  let ?key = "Getenv w ''GEMINI_API_KEY''"
  let ?n = "min (length cs) 16"
  have "parse_loop w cs d (int ?n) (int 0) [] [ClientCreated ?key] =
        (Inr ([], Some (ChunkFailed (int k + 1) err)),
         [ClientCreated ?key] @ call_events cs d (int ?n) 0 (Suc k))"
    using assms(3,4,5) by (intro parse_loop_first_failure) simp_all
  then have r: "parseWithGenAI w cs d =
        (Inr ([], Some (ChunkFailed (int k + 1) err)),
         [ClientCreated ?key] @ call_events cs d (int ?n) 0 (Suc k) @ [ClientClosed])"
    unfolding parseWithGenAI_run[OF assms(1,2)] by simp
  have "Suc k \<le> length cs" using assms(3) by simp
  then have "invocations ([ClientCreated ?key] @ call_events cs d (int ?n) 0 (Suc k) @ [ClientClosed])
        = map (Pair d) (take (Suc k) cs)"
    by (rule invocations_all)
  then show ?thesis unfolding r by simp
qed

theorem parseWithGenAI_abort_witness:
  "fst (parseWithGenAI world_fail2 [''a'', ''b'', ''c''] ''x'')
     = Inr ([], Some (ChunkFailed 2 ''deadline exceeded''))
   \<and> invocations (snd (parseWithGenAI world_fail2 [''a'', ''b'', ''c''] ''x''))
     = [(''x'', ''a''), (''x'', ''b'')]"
  using parseWithGenAI_abort[of world_fail2 1 "[''a'', ''b'', ''c'']" "''x''" "''deadline exceeded''"]
  by (simp add: world_fail2_def world_ok_def)

text \<open>
  Claim C5. When GEMINI_API_KEY is not set, \<^verbatim>\<open>parseWithGenAI\<close> returns the empty string
  and the error "GEMINI_API_KEY not set", and it has done nothing before: no client was
  created and no model call was made.
\<close>

theorem parseWithGenAI_no_key:
  assumes "Getenv w ''GEMINI_API_KEY'' = []"
  shows "parseWithGenAI w cs d = (Inr ([], Some KeyNotSet), [])"
  using assms by (simp add: parseWithGenAI_def)

theorem parseWithGenAI_no_key_witness:
  "Getenv world_nokey ''GEMINI_API_KEY'' = []
   \<and> parseWithGenAI world_nokey [''a'', ''b''] ''x'' = (Inr ([], Some KeyNotSet), [])"
  using parseWithGenAI_no_key[of world_nokey "[''a'', ''b'']" "''x''"]
  by (simp add: world_nokey_def)

text \<open>
  Claim C8 as it is stated fails. In the world \<open>world_blob\<close> the call succeeds with a
  response whose only part is not text; the response has no text part, yet the per-chunk
  result is the printed part followed by a line feed, not the empty string.
\<close>

theorem chunk_result_no_text_counterexample:
  "GenerateContent world_blob 0 ''x'' ''a'' = Inr blob_response
   \<and> text_parts blob_response = []
   \<and> chunk_result blob_response = ''{image/png []}'' @ [CHR 0x0A]
   \<and> fst (parseWithGenAI world_blob [''a''] ''x'') = Inr (''{image/png []}'' @ [CHR 0x0A], None)"
  by (simp add: world_blob_def world_ok_def parseWithGenAI_def min_go_def parse_loop.simps
      chunk_result_parts response_parts_def text_parts_def blob_response_def partString_def)

text \<open>
  Claim C8, amended. When the key is set, the client is created and every call of the
  batch succeeds, a chunk whose response has no parts at all (no candidates, or candidates
  whose content is nil or has no parts) has the empty string as its per-chunk result, that
  empty string is what it contributes to the joined aggregate, and \<^verbatim>\<open>parseWithGenAI\<close>
  returns no error.
\<close>

theorem chunk_result_no_parts:
  assumes "Getenv w ''GEMINI_API_KEY'' \<noteq> []"
    and "NewClient w (Getenv w ''GEMINI_API_KEY'') = None"
    and "\<forall>j<min (length cs) 16. \<exists>resp. GenerateContent w j d (cs ! j) = Inr resp"
    and "k < min (length cs) 16"
    and "GenerateContent w k d (cs ! k) = Inr resp"
    and "response_parts resp = []"
  shows "chunk_result resp = []
         \<and> (\<exists>rs. fst (parseWithGenAI w cs d) = Inr (strings_Join rs [CHR 0x0A], None)
                \<and> length rs = min (length cs) 16 \<and> rs ! k = [])"
proof -
  let ?rs = "map (\<lambda>j. chunk_result (projr (GenerateContent w j d (cs ! j))))
                      [0..<min (length cs) 16]"
  have e: "chunk_result resp = []" using assms(6) by (simp add: chunk_result_parts)
  have "fst (parseWithGenAI w cs d) = Inr (strings_Join ?rs [CHR 0x0A], None)"
    using parseWithGenAI_all_ok[OF assms(1,2,3)] by simp
  moreover have "length ?rs = min (length cs) 16" by simp
  moreover have "?rs ! k = []" using assms(4,5) e by simp
  ultimately show ?thesis using e by blast
qed

theorem chunk_result_no_parts_witness:
  "response_parts \<lparr>Candidates = []\<rparr> = []
   \<and> chunk_result \<lparr>Candidates = []\<rparr> = []
   \<and> (\<exists>rs. fst (parseWithGenAI world_empty [''a'', ''b''] ''x'') = Inr (strings_Join rs [CHR 0x0A], None)
                \<and> length rs = 2 \<and> rs ! 1 = [])"
proof -
  have "response_parts \<lparr>Candidates = []\<rparr> = []" by (simp add: response_parts_def)
  then show ?thesis
    using chunk_result_no_parts[of world_empty "[''a'', ''b'']" "''x''" 1 "\<lparr>Candidates = []\<rparr>"]
    by (simp add: world_empty_def world_ok_def numeral_2_eq_2)
qed

end
